theory Spec2Isabelle
  imports Complex_Main "HOL-Library.Sublist"
begin

section \<open>Strings\<close>

text \<open>
  A Python \<open>str\<close> is a sequence of code points. It is modelled as a \<open>string\<close> whose
  characters are the code points 0 to 255 (Latin-1), one \<open>char\<close> per code point: the
  letter e-acute of the source's patterns is the single character 0xE9. Floats are
  modelled by exact rationals (the decimal value that Python rounds to the nearest
  double).
\<close>

definition code_point :: "char \<Rightarrow> nat" where
  "code_point c = of_char c"

text \<open>\<open>str.lower\<close> and \<open>str.upper\<close> on one code point, inside Latin-1: the ASCII
  letters and the accented letters 0xC0-0xDE / 0xE0-0xFE (without the signs 0xD7 and 0xF7).
  The three code points whose upper case lies outside Latin-1 (0xB5, 0xDF, 0xFF) are left
  as they are by \<open>upper_char\<close>; no pattern of the source has them.\<close>

definition lower_char :: "char \<Rightarrow> char" where
  "lower_char c =
     (let n = code_point c in
      if (65 \<le> n \<and> n \<le> 90) \<or> (192 \<le> n \<and> n \<le> 222 \<and> n \<noteq> 215)
      then char_of (n + 32) else c)"

definition upper_char :: "char \<Rightarrow> char" where
  "upper_char c =
     (let n = code_point c in
      if (97 \<le> n \<and> n \<le> 122) \<or> (224 \<le> n \<and> n \<le> 254 \<and> n \<noteq> 247)
      then char_of (n - 32) else c)"

definition lower :: "string \<Rightarrow> string" where
  "lower s = map lower_char s"

definition upper :: "string \<Rightarrow> string" where
  "upper s = map upper_char s"

text \<open>\<open>sub in s\<close> on strings: \<open>sub\<close> occurs in \<open>s\<close> as a contiguous substring.\<close>

fun py_in :: "string \<Rightarrow> string \<Rightarrow> bool" where
  "py_in sub [] = (sub = [])"
| "py_in sub (c # t) = (prefix sub (c # t) \<or> py_in sub t)"

text \<open>\<open>s.replace(a, b)\<close> for single characters \<open>a\<close> and \<open>b\<close>.\<close>

definition replace :: "char \<Rightarrow> char \<Rightarrow> string \<Rightarrow> string" where
  "replace a b s = map (\<lambda>c. if c = a then b else c) s"

section \<open>Regular expressions\<close>

text \<open>
  The patterns of the source are values of \<open>rx\<close>. Repetition (\<open>*\<close>, \<open>+\<close>) is applied
  to character classes only, as in every pattern of the source. \<open>Grp n r\<close> is the
  \<open>n\<close>-th capturing group.
\<close>

definition is_digit :: "char \<Rightarrow> bool" where
  "is_digit c = (48 \<le> code_point c \<and> code_point c \<le> 57)"

text \<open>The class \<open>\s\<close> of a \<open>str\<close> pattern: the white space of \<open>str.isspace\<close>.\<close>

definition is_space :: "char \<Rightarrow> bool" where
  "is_space c =
     (let n = code_point c in (9 \<le> n \<and> n \<le> 13) \<or> (28 \<le> n \<and> n \<le> 32) \<or> n = 133 \<or> n = 160)"

datatype rx =
    Lit string
  | Cls "char \<Rightarrow> bool"
  | Star "char \<Rightarrow> bool"
  | Plus "char \<Rightarrow> bool"
  | Opt rx
  | Seq rx rx
  | Alt rx rx
  | Grp nat rx

type_synonym groups = "(nat \<times> string) list"

type_synonym mstate = "string \<times> groups"

text \<open>With \<open>re.IGNORECASE\<close> (the flag \<open>ic\<close>) a character matches a class when one of its
  case variants is in the class, and a literal when both have the same lower case.\<close>

definition cls :: "bool \<Rightarrow> (char \<Rightarrow> bool) \<Rightarrow> char \<Rightarrow> bool" where
  "cls ic P c = (P c \<or> (ic \<and> (P (lower_char c) \<or> P (upper_char c))))"

definition char_eq :: "bool \<Rightarrow> char \<Rightarrow> char \<Rightarrow> bool" where
  "char_eq ic c d = (if c = d then True else if ic then lower_char c = lower_char d else False)"

text \<open>A literal is matched character by character; the result is the input left over.\<close>

fun lit :: "bool \<Rightarrow> string \<Rightarrow> string \<Rightarrow> string option" where
  "lit ic [] s = Some s"
| "lit ic (c # l) [] = None"
| "lit ic (c # l) (d # s) = (if char_eq ic c d then lit ic l s else None)"

text \<open>
  The backtracking matcher: \<open>branches ic r (s, g)\<close> lists, in the order in which the
  engine tries them, the ways \<open>r\<close> can match a prefix of \<open>s\<close>: the input left over and
  the groups captured. Greedy repetition tries the longest run first, an alternative its
  left branch first, an optional part its presence first.
\<close>

fun branches :: "bool \<Rightarrow> rx \<Rightarrow> mstate \<Rightarrow> mstate list" where
  "branches ic (Lit l) (s, g) =
     (case lit ic l s of None \<Rightarrow> [] | Some s' \<Rightarrow> [(s', g)])"
| "branches ic (Cls P) (s, g) =
     (case s of [] \<Rightarrow> [] | c # t \<Rightarrow> if cls ic P c then [(t, g)] else [])"
| "branches ic (Star P) (s, g) =
     map (\<lambda>k. (drop k s, g)) (rev [0 ..< Suc (length (takeWhile (cls ic P) s))])"
| "branches ic (Plus P) (s, g) =
     map (\<lambda>k. (drop k s, g)) (rev [1 ..< Suc (length (takeWhile (cls ic P) s))])"
| "branches ic (Opt r) st = branches ic r st @ [st]"
| "branches ic (Seq a b) st = concat (map (branches ic b) (branches ic a st))"
| "branches ic (Alt a b) st = branches ic a st @ branches ic b st"
| "branches ic (Grp n r) (s, g) =
     map (\<lambda>(s', g'). (s', (n, take (length s - length s') s) # g')) (branches ic r (s, g))"

text \<open>\<open>re.search\<close>: the first way to match at the leftmost position that has one; the
  positions run from 0 to the length of the string.\<close>

fun search :: "bool \<Rightarrow> rx \<Rightarrow> string \<Rightarrow> groups option" where
  "search ic r s =
     (case branches ic r (s, []) of
        (s', g) # _ \<Rightarrow> Some g
      | [] \<Rightarrow> (case s of [] \<Rightarrow> None | _ # t \<Rightarrow> search ic r t))"

declare search.simps [simp del]

definition group :: "groups \<Rightarrow> nat \<Rightarrow> string option" where
  "group g n = map_of g n"

text \<open>
  What a pattern matches, stated without the engine: \<open>matches ic r u caps\<close> holds when
  \<open>r\<close> matches exactly the string \<open>u\<close> and captures the groups \<open>caps\<close> on the way (the
  latest group first). The engine is related to it by lemma \<open>in_branches_iff\<close> below.
\<close>

fun matches :: "bool \<Rightarrow> rx \<Rightarrow> string \<Rightarrow> groups \<Rightarrow> bool" where
  "matches ic (Lit l) u caps = (list_all2 (char_eq ic) l u \<and> caps = [])"
| "matches ic (Cls P) u caps = ((\<exists>c. u = [c] \<and> cls ic P c) \<and> caps = [])"
| "matches ic (Star P) u caps = ((\<forall>c\<in>set u. cls ic P c) \<and> caps = [])"
| "matches ic (Plus P) u caps = (u \<noteq> [] \<and> (\<forall>c\<in>set u. cls ic P c) \<and> caps = [])"
| "matches ic (Opt r) u caps = (matches ic r u caps \<or> (u = [] \<and> caps = []))"
| "matches ic (Seq a b) u caps =
     (\<exists>u1 u2 c1 c2. u = u1 @ u2 \<and> caps = c2 @ c1 \<and> matches ic a u1 c1 \<and> matches ic b u2 c2)"
| "matches ic (Alt a b) u caps = (matches ic a u caps \<or> matches ic b u caps)"
| "matches ic (Grp n r) u caps = (\<exists>c. matches ic r u c \<and> caps = (n, u) # c)"

section \<open>parse\_power\_value\<close>

datatype py_error = ValueError | KeyError | AttributeError

definition conversions :: "string \<rightharpoonup> rat" where
  "conversions = map_of [(''w'', 1), (''kw'', 1000), (''btu'', 29307107 / 100000000)]"

definition digit_val :: "char \<Rightarrow> nat" where
  "digit_val c = code_point c - 48"

text \<open>The value of a string of decimal digits.\<close>

definition digits_value :: "string \<Rightarrow> rat" where
  "digits_value ds = foldl (\<lambda>a c. 10 * a + of_nat (digit_val c)) 0 ds"

text \<open>
  \<open>float(s)\<close> on the strings over digits, the point and a leading sign: an optional sign,
  then digits with at most one point and at least one digit. Every other string is a
  \<open>ValueError\<close> here; Python also accepts exponents, white space around the number,
  underscores between digits and the words inf and nan, none of which can reach the call
  in \<open>parse_power_value\<close>, whose argument consists of digits and points.
\<close>

definition py_float :: "string \<Rightarrow> py_error + rat" where
  "py_float s =
     (let (sgn, body) =
            (case s of
               [] \<Rightarrow> (1, s)
             | c # t \<Rightarrow> if c = CHR ''-'' then (- 1, t) else if c = CHR ''+'' then (1, t) else (1, s));
          ip = takeWhile is_digit body;
          rest = dropWhile is_digit body
      in case rest of
           [] \<Rightarrow> if ip = [] then Inl ValueError else Inr (sgn * digits_value ip)
         | c # fp \<Rightarrow>
             if c = CHR ''.'' \<and> list_all is_digit fp \<and> (ip \<noteq> [] \<or> fp \<noteq> [])
             then Inr (sgn * (digits_value ip + digits_value fp / 10 ^ length fp))
             else Inl ValueError)"

definition lookup :: "('k \<rightharpoonup> 'v) \<Rightarrow> 'k \<Rightarrow> py_error + 'v" where
  "lookup d k = (case d k of None \<Rightarrow> Inl KeyError | Some v \<Rightarrow> Inr v)"

text \<open>The pattern \<^verbatim>\<open>(\d+[\d.,]*)\s*(w|kw|btu)/?h?\<close>.\<close>

definition num_char :: "char \<Rightarrow> bool" where
  "num_char c = (is_digit c \<or> c = CHR ''.'' \<or> c = CHR '','')"

definition unit_rx :: rx where
  "unit_rx = Alt (Lit ''w'') (Alt (Lit ''kw'') (Lit ''btu''))"

definition power_rx :: rx where
  "power_rx =
     Seq (Grp 1 (Seq (Plus is_digit) (Star num_char)))
    (Seq (Star is_space)
    (Seq (Grp 2 unit_rx)
    (Seq (Opt (Lit ''/'')) (Opt (Lit ''h'')))))"

text \<open>The body of the \<open>try\<close>: the float conversion is evaluated first, then the lookup of
  the unit.\<close>

definition power_of :: "string option \<Rightarrow> string option \<Rightarrow> py_error + rat" where
  "power_of value unit =
     (case value of
        None \<Rightarrow> Inl AttributeError
      | Some v \<Rightarrow>
          (case py_float (replace CHR '','' CHR ''.'' v) of
             Inl e \<Rightarrow> Inl e
           | Inr f \<Rightarrow>
               (case unit of
                  None \<Rightarrow> Inl AttributeError
                | Some u \<Rightarrow> (case lookup conversions (lower u) of Inl e \<Rightarrow> Inl e | Inr k \<Rightarrow> Inr (f * k)))))"

definition parse_power_value :: "string \<Rightarrow> rat option" where
  "parse_power_value val_str =
     (case search True power_rx val_str of
        None \<Rightarrow> None
      | Some m \<Rightarrow> (case power_of (group m 1) (group m 2) of Inl e \<Rightarrow> None | Inr w \<Rightarrow> Some w))"

text \<open>
  The tokens the pattern looks for: a number token starts with a digit and goes on with
  digits, points and commas; a unit token is one of the keys of \<open>conversions\<close> in any
  letter case. A string has a power token when a number token is followed, after optional
  white space, by a unit token. \<open>separators\<close> counts the points and commas of a token.
\<close>

definition number_token :: "string \<Rightarrow> bool" where
  "number_token tok = (tok \<noteq> [] \<and> is_digit (hd tok) \<and> (\<forall>c\<in>set tok. num_char c))"

definition unit_token :: "string \<Rightarrow> bool" where
  "unit_token u = (lower u = ''w'' \<or> lower u = ''kw'' \<or> lower u = ''btu'')"

definition power_token :: "string \<Rightarrow> bool" where
  "power_token s =
     (\<exists>pre tok ws un post. s = pre @ tok @ ws @ un @ post \<and> number_token tok \<and>
        (\<forall>c\<in>set ws. is_space c) \<and> unit_token un)"

definition separators :: "string \<Rightarrow> nat" where
  "separators tok = length (filter (\<lambda>c. c = CHR ''.'' \<or> c = CHR '','') tok)"

section \<open>find\_energy\_class\<close>

text \<open>The pattern \<^verbatim>\<open>(classe \xe9nerg\xe9tique|energy class)[:\s]*([A-G][\+]*)\<close>.\<close>

definition e_acute :: char where
  "e_acute = char_of (233 :: nat)"

definition sep_char :: "char \<Rightarrow> bool" where
  "sep_char c = (c = CHR '':'' \<or> is_space c)"

definition class_letter :: "char \<Rightarrow> bool" where
  "class_letter c = (65 \<le> code_point c \<and> code_point c \<le> 71)"

definition energy_rx :: rx where
  "energy_rx =
     Seq (Grp 1 (Alt (Lit (''classe '' @ [e_acute] @ ''nerg'' @ [e_acute] @ ''tique''))
                     (Lit ''energy class'')))
    (Seq (Star sep_char)
         (Grp 2 (Seq (Cls class_letter) (Star (\<lambda>c. c = CHR ''+'')))))"

definition find_energy_class :: "string \<Rightarrow> string option" where
  "find_energy_class text =
     (case search True energy_rx text of None \<Rightarrow> None | Some class_match \<Rightarrow> group class_match 2)"

text \<open>
  The tokens of this pattern: a label in any letter case, and a class value, which is a
  letter from A to G in either case followed by plus signs only. A text has an energy
  token when a label is followed, after optional colons and white space, by a class value.
\<close>

definition energy_label :: "string \<Rightarrow> bool" where
  "energy_label l =
     (lower l = ''classe '' @ [e_acute] @ ''nerg'' @ [e_acute] @ ''tique'' \<or> lower l = ''energy class'')"

definition class_value :: "string \<Rightarrow> bool" where
  "class_value v =
     (\<exists>c ps. v = c # ps \<and>
        ((65 \<le> code_point c \<and> code_point c \<le> 71) \<or> (97 \<le> code_point c \<and> code_point c \<le> 103)) \<and>
        (\<forall>x\<in>set ps. x = CHR ''+''))"

definition energy_token :: "string \<Rightarrow> bool" where
  "energy_token t =
     (\<exists>pre l seps v post. t = pre @ l @ seps @ v @ post \<and> energy_label l \<and>
        (\<forall>x\<in>set seps. sep_char x) \<and> class_value v)"

section \<open>extract\_specs\_from\_text\<close>

record specs =
  consumption_w :: "rat option"
  cooling_w :: "rat option"
  inverter :: "string option"
  energy_class :: "string option"

text \<open>The patterns
  \<^verbatim>\<open>(consommation|puissance absorb\xe9e|power consumption)[:\s]*([\d.,]+\s*(w|kw|btu))\<close> and
  \<^verbatim>\<open>(puissance frigorifique|cooling capacity|capacity)[:\s]*([\d.,]+\s*(w|kw|btu))\<close>.\<close>

definition labelled_power_rx :: "rx \<Rightarrow> rx" where
  "labelled_power_rx labels =
     Seq (Grp 1 labels)
    (Seq (Star sep_char)
         (Grp 2 (Seq (Plus num_char) (Seq (Star is_space) (Grp 3 unit_rx)))))"

definition consumption_rx :: rx where
  "consumption_rx =
     labelled_power_rx
       (Alt (Lit ''consommation'')
       (Alt (Lit (''puissance absorb'' @ [e_acute] @ ''e''))
            (Lit ''power consumption'')))"

definition cooling_rx :: rx where
  "cooling_rx =
     labelled_power_rx
       (Alt (Lit ''puissance frigorifique'')
       (Alt (Lit ''cooling capacity'')
            (Lit ''capacity'')))"

text \<open>A matched group that took part in the match is a string; \<open>parse_power_value\<close> is
  called on group 2, which every match of these patterns sets.\<close>

definition parse_group :: "groups \<Rightarrow> nat \<Rightarrow> rat option" where
  "parse_group m n = (case group m n of None \<Rightarrow> None | Some v \<Rightarrow> parse_power_value v)"

definition extract_specs_from_text :: "string \<Rightarrow> specs" where
  "extract_specs_from_text text0 =
     (let text = lower text0;
          specs = \<lparr>consumption_w = None, cooling_w = None, inverter = None, energy_class = None\<rparr>;
          specs = (case search True consumption_rx text of
                     None \<Rightarrow> specs
                   | Some consumption_match \<Rightarrow>
                       specs\<lparr>consumption_w := parse_group consumption_match 2\<rparr>);
          specs = (case search True cooling_rx text of
                     None \<Rightarrow> specs
                   | Some cooling_match \<Rightarrow>
                       specs\<lparr>cooling_w := parse_group cooling_match 2\<rparr>);
          specs = specs\<lparr>inverter :=
                    Some (if py_in ''inverter'' text then ''Inverter'' else ''Non-Inverter'')\<rparr>;
          specs = specs\<lparr>energy_class := find_energy_class text\<rparr>
      in specs)"

section \<open>fetch\_product\_specs\<close>

text \<open>
  The network and the parsing libraries are parameters. Each call that can raise returns
  an option, \<open>None\<close> standing for any exception. \<open>http_get w i url\<close> is the body of the
  response to \<open>requests.get(url)\<close> made as the \<open>i\<close>-th request of the run, so the same
  address may answer differently at different times. The source's line that unwraps the
  redirect link (the \<open>q\<close> parameter of the first PDF link) has an unbalanced parenthesis;
  what it computes is the parameter \<open>link_target\<close>. \<open>url_quote\<close> stands for
  \<open>requests.utils.quote\<close>, which does not raise on the strings modelled here.
\<close>

record web =
  http_get :: "nat \<Rightarrow> string \<Rightarrow> string option"
  url_quote :: "string \<Rightarrow> string"
  anchor_hrefs :: "string \<Rightarrow> string list option"
  link_target :: "string \<Rightarrow> string option"
  pdf_text :: "string \<Rightarrow> string option"
  search_div_text :: "string \<Rightarrow> string option"

text \<open>The three places where the function sends a request.\<close>

datatype request = PdfSearch string | PdfDownload string | HtmlSearch string

text \<open>How the first \<open>try\<close> block ends: it returns a result, it ends without returning
  (no PDF link), or it raises and the handler passes.\<close>

datatype outcome = Returned specs | NoPdfLink | Raised

definition google :: string where
  "google = ''https://www.google.com/search?q=''"

definition is_pdf_link :: "string \<Rightarrow> bool" where
  "is_pdf_link href = (py_in ''pdf'' (lower href) \<and> \<not> py_in ''google.com'' href)"

definition pdf_search :: "web \<Rightarrow> string \<Rightarrow> request list \<times> outcome" where
  "pdf_search w model =
     (let search_url = google @ url_quote w (model @ '' technical specifications filetype:pdf'');
          sent = [PdfSearch search_url]
      in case http_get w 0 search_url of
           None \<Rightarrow> (sent, Raised)
         | Some page \<Rightarrow>
             (case anchor_hrefs w page of
                None \<Rightarrow> (sent, Raised)
              | Some hrefs \<Rightarrow>
                  (case filter is_pdf_link hrefs of
                     [] \<Rightarrow> (sent, NoPdfLink)
                   | link # _ \<Rightarrow>
                       (case link_target w link of
                          None \<Rightarrow> (sent, Raised)
                        | Some pdf_url \<Rightarrow>
                            (let sent = sent @ [PdfDownload pdf_url]
                             in case http_get w 1 pdf_url of
                                  None \<Rightarrow> (sent, Raised)
                                | Some content \<Rightarrow>
                                    (case pdf_text w content of
                                       None \<Rightarrow> (sent, Raised)
                                     | Some text \<Rightarrow>
                                         (sent, Returned (extract_specs_from_text text))))))))"

definition html_search :: "web \<Rightarrow> nat \<Rightarrow> string \<Rightarrow> request list \<times> specs option" where
  "html_search w i model =
     (let url = google @ url_quote w model;
          sent = [HtmlSearch url]
      in case http_get w i url of
           None \<Rightarrow> (sent, None)
         | Some page \<Rightarrow>
             (case search_div_text w page of
                None \<Rightarrow> (sent, None)
              | Some main_content \<Rightarrow> (sent, Some (extract_specs_from_text main_content))))"

text \<open>The function returns the requests it has sent, in order, and its result.\<close>

definition fetch_product_specs :: "web \<Rightarrow> string \<Rightarrow> request list \<times> specs option" where
  "fetch_product_specs w model =
     (case pdf_search w model of
        (sent, Returned specs) \<Rightarrow> (sent, Some specs)
      | (sent, _) \<Rightarrow>
          (case html_search w (length sent) model of (sent', result) \<Rightarrow> (sent @ sent', result)))"

text \<open>The kinds of request, to count them in the list of requests sent.\<close>

fun is_pdf_search :: "request \<Rightarrow> bool" where
  "is_pdf_search (PdfSearch u) = True"
| "is_pdf_search r = False"

fun is_html_search :: "request \<Rightarrow> bool" where
  "is_html_search (HtmlSearch u) = True"
| "is_html_search r = False"

text \<open>A web for concrete runs: every request is answered, the first result page has no
  link, and the text of the result container of every page is \<open>text\<close>.\<close>

definition stub_web :: "string \<Rightarrow> web" where
  "stub_web text =
     \<lparr>http_get = (\<lambda>i url. Some url), url_quote = (\<lambda>s. s), anchor_hrefs = (\<lambda>page. Some []),
      link_target = (\<lambda>link. Some link), pdf_text = (\<lambda>content. None),
      search_div_text = (\<lambda>page. Some text)\<rparr>"

section \<open>The script: acceptance of the fetched specs and merge with the manual input\<close>

text \<open>The manual parameters \<open>consumption\<close>, \<open>cooling_power\<close>, \<open>inverter\<close> and
  \<open>energy_class\<close> of the form.\<close>

record manual =
  consumption :: rat
  cooling_power :: rat
  manual_inverter :: string
  manual_energy_class :: string

text \<open>What the script computes and shows: \<open>final_consumption\<close>, \<open>final_cooling\<close> and the
  value of the third metric.\<close>

record merged =
  final_consumption :: "rat option"
  final_cooling :: "rat option"
  efficiency :: "string option"

text \<open>Truth value of an optional float: \<open>None\<close> and \<open>0.0\<close> are false.\<close>

definition truthy :: "rat option \<Rightarrow> bool" where
  "truthy x = (case x of None \<Rightarrow> False | Some v \<Rightarrow> v \<noteq> 0)"

text \<open>The test after the search: the fetched specs are kept or replaced by \<open>None\<close>.\<close>

definition accept :: "specs option \<Rightarrow> specs option" where
  "accept specs =
     (case specs of
        None \<Rightarrow> None
      | Some s \<Rightarrow> if truthy (consumption_w s) \<and> truthy (cooling_w s) then Some s else None)"

definition searched_specs :: "bool \<Rightarrow> string \<Rightarrow> (string \<Rightarrow> specs option) \<Rightarrow> specs option" where
  "searched_specs button model_name fetch =
     (if button then (if model_name \<noteq> [] then accept (fetch model_name) else None) else None)"

text \<open>The computation section; \<open>None\<close> when the section is not entered.\<close>

definition merge :: "specs option \<Rightarrow> manual \<Rightarrow> merged option" where
  "merge specs m =
     (if specs \<noteq> None \<or> consumption m \<noteq> 0 \<or> cooling_power m \<noteq> 0
      then Some \<lparr>final_consumption = (case specs of Some s \<Rightarrow> consumption_w s | None \<Rightarrow> Some (consumption m)),
                 final_cooling = (case specs of Some s \<Rightarrow> cooling_w s | None \<Rightarrow> Some (cooling_power m)),
                 efficiency = (case specs of Some s \<Rightarrow> energy_class s | None \<Rightarrow> Some (manual_energy_class m))\<rparr>
      else None)"

definition script :: "web \<Rightarrow> bool \<Rightarrow> string \<Rightarrow> manual \<Rightarrow> merged option" where
  "script w button model_name m =
     merge (searched_specs button model_name (\<lambda>model. snd (fetch_product_specs w model))) m"

text \<open>The sample text of the end-to-end example.\<close>

definition sample_text :: string where
  "sample_text =
     ''Puissance absorb'' @ [e_acute] @ ''e: 900W, Puissance frigorifique: 3.5kW, Non-Inverter, Classe ''
       @ [e_acute] @ ''nerg'' @ [e_acute] @ ''tique: A++''"

section \<open>Characters and character classes\<close>

lemma code_point_less: "code_point c < 256"
  by (simp add: code_point_def)

lemma code_point_lower_char:
  "code_point (lower_char c) =
     (if (65 \<le> code_point c \<and> code_point c \<le> 90) \<or> (192 \<le> code_point c \<and> code_point c \<le> 222 \<and> code_point c \<noteq> 215)
      then code_point c + 32 else code_point c)"
  using code_point_less [of c] by (simp add: lower_char_def Let_def code_point_def)

lemma code_point_upper_char:
  "code_point (upper_char c) =
     (if (97 \<le> code_point c \<and> code_point c \<le> 122) \<or> (224 \<le> code_point c \<and> code_point c \<le> 254 \<and> code_point c \<noteq> 247)
      then code_point c - 32 else code_point c)"
  using code_point_less [of c] by (auto simp: upper_char_def Let_def code_point_def)

lemma cls_is_digit [simp]: "cls ic is_digit c = is_digit c"
  by (auto simp: cls_def is_digit_def code_point_lower_char code_point_upper_char split: if_splits)

lemma cls_is_space [simp]: "cls ic is_space c = is_space c"
  by (auto simp: cls_def is_space_def Let_def code_point_lower_char code_point_upper_char split: if_splits)

lemma code_point_chars [simp]:
  "code_point CHR ''.'' = 46" "code_point CHR '','' = 44" "code_point CHR '':'' = 58"
  "code_point CHR ''+'' = 43" "code_point CHR ''-'' = 45"
  by (simp_all add: code_point_def)

lemma char_eq_code_point: "c = d \<longleftrightarrow> code_point c = code_point d"
  by (simp add: code_point_def)

lemma cls_num_char [simp]: "cls ic num_char c = num_char c"
  by (auto simp: cls_def num_char_def is_digit_def char_eq_code_point [of _ "CHR ''.''"] char_eq_code_point [of _ "CHR '',''"]
       code_point_lower_char code_point_upper_char split: if_splits)

lemma cls_sep_char [simp]: "cls ic sep_char c = sep_char c"
  by (auto simp: cls_def sep_char_def is_space_def Let_def char_eq_code_point [of _ "CHR '':''"]
       code_point_lower_char code_point_upper_char split: if_splits)

lemma cls_plus [simp]: "cls ic (\<lambda>c. c = CHR ''+'') c = (c = CHR ''+'')"
  by (auto simp: cls_def char_eq_code_point [of _ "CHR ''+''"]
       code_point_lower_char code_point_upper_char split: if_splits)

lemma cls_class_letter:
  "cls True class_letter c \<longleftrightarrow> (65 \<le> code_point c \<and> code_point c \<le> 71) \<or> (97 \<le> code_point c \<and> code_point c \<le> 103)"
  by (auto simp: cls_def class_letter_def code_point_lower_char code_point_upper_char split: if_splits)

lemma char_eq_True: "char_eq True c d \<longleftrightarrow> lower_char c = lower_char d"
  by (auto simp: char_eq_def)

lemma lower_char_idem [simp]: "lower_char (lower_char c) = lower_char c"
  by (auto simp: char_eq_code_point [of "lower_char _"] code_point_lower_char)

lemma lower_idem [simp]: "lower (lower s) = lower s"
  by (simp add: lower_def)

section \<open>The matcher and what a pattern matches\<close>

lemma lit_Some_iff:
  "lit ic l s = Some s' \<longleftrightarrow> (\<exists>u. s = u @ s' \<and> list_all2 (char_eq ic) l u)"
proof (induction ic l s rule: lit.induct)
  case (1 ic s)
  then show ?case by auto
next
  case (2 ic c l)
  then show ?case by (auto simp: list_all2_Cons1)
next
  case (3 ic c l d s)
  show ?case
  proof (cases "char_eq ic c d")
    case True
    with 3 show ?thesis by (auto simp: list_all2_Cons1 Cons_eq_append_conv)
  next
    case False
    then show ?thesis by (auto simp: list_all2_Cons1 Cons_eq_append_conv)
  qed
qed

lemma list_all2_char_eq_True: "list_all2 (char_eq True) l u \<longleftrightarrow> lower u = lower l"
  by (auto simp: lower_def list_all2_conv_all_nth char_eq_True list_eq_iff_nth_eq)

lemma in_branches_Cls:
  "(s', g') \<in> set (branches ic (Cls P) (s, g)) \<longleftrightarrow> (\<exists>c. s = c # s' \<and> cls ic P c) \<and> g' = g"
  by (auto split: list.splits)

lemma drop_takeWhile_iff:
  "(\<exists>k. m \<le> k \<and> k \<le> length (takeWhile P s) \<and> s' = drop k s) \<longleftrightarrow>
   (\<exists>u. s = u @ s' \<and> m \<le> length u \<and> (\<forall>c\<in>set u. P c))"
proof
  assume "\<exists>k. m \<le> k \<and> k \<le> length (takeWhile P s) \<and> s' = drop k s"
  then obtain k where k: "m \<le> k" "k \<le> length (takeWhile P s)" "s' = drop k s" by blast
  have le: "k \<le> length s" using k(2) length_takeWhile_le [of P s] by linarith
  have "take k (takeWhile P s @ dropWhile P s) = take k (takeWhile P s)"
    using k(2) by (subst take_append) simp
  then have "take k s = take k (takeWhile P s)" by simp
  then have "set (take k s) \<subseteq> set (takeWhile P s)" by (simp add: set_take_subset)
  then have "\<forall>c\<in>set (take k s). P c" by (auto dest: set_takeWhileD)
  moreover have "s = take k s @ s'" using k(3) by simp
  moreover have "m \<le> length (take k s)" using k(1) le by simp
  ultimately show "\<exists>u. s = u @ s' \<and> m \<le> length u \<and> (\<forall>c\<in>set u. P c)" by blast
next
  assume "\<exists>u. s = u @ s' \<and> m \<le> length u \<and> (\<forall>c\<in>set u. P c)"
  then obtain u where u: "s = u @ s'" "m \<le> length u" "\<forall>c\<in>set u. P c" by blast
  have "takeWhile P s = u @ takeWhile P s'" using u(1,3) by simp
  then have "length u \<le> length (takeWhile P s)" by simp
  with u show "\<exists>k. m \<le> k \<and> k \<le> length (takeWhile P s) \<and> s' = drop k s" by auto
qed

lemma in_branches_Star:
  "(s', g') \<in> set (branches ic (Star P) (s, g)) \<longleftrightarrow>
     (\<exists>u. s = u @ s' \<and> (\<forall>c\<in>set u. cls ic P c)) \<and> g' = g"
proof -
  have "(s', g') \<in> set (branches ic (Star P) (s, g)) \<longleftrightarrow>
        (\<exists>k. 0 \<le> k \<and> k \<le> length (takeWhile (cls ic P) s) \<and> s' = drop k s) \<and> g' = g"
    by (auto simp: less_Suc_eq_le image_iff simp del: upt_Suc)
  then show ?thesis unfolding drop_takeWhile_iff by simp
qed

lemma in_branches_Plus:
  "(s', g') \<in> set (branches ic (Plus P) (s, g)) \<longleftrightarrow>
     (\<exists>u. s = u @ s' \<and> u \<noteq> [] \<and> (\<forall>c\<in>set u. cls ic P c)) \<and> g' = g"
proof -
  have "(s', g') \<in> set (branches ic (Plus P) (s, g)) \<longleftrightarrow>
        (\<exists>k. 1 \<le> k \<and> k \<le> length (takeWhile (cls ic P) s) \<and> s' = drop k s) \<and> g' = g"
    by (auto simp: less_Suc_eq_le image_iff simp del: upt_Suc)
  then show ?thesis unfolding drop_takeWhile_iff by (auto simp: Suc_le_eq)
qed

lemma in_branches_Opt:
  "st' \<in> set (branches ic (Opt r) st) \<longleftrightarrow> st' \<in> set (branches ic r st) \<or> st' = st"
  by auto

lemma in_branches_Alt:
  "st' \<in> set (branches ic (Alt a b) st) \<longleftrightarrow> st' \<in> set (branches ic a st) \<or> st' \<in> set (branches ic b st)"
  by auto

lemma in_branches_Grp:
  "(s', g') \<in> set (branches ic (Grp n r) (s, g)) \<longleftrightarrow>
     (\<exists>g0. (s', g0) \<in> set (branches ic r (s, g)) \<and> g' = (n, take (length s - length s') s) # g0)"
  by auto

lemma search_None_iff:
  "search ic r s = None \<longleftrightarrow> (\<forall>t. suffix t s \<longrightarrow> branches ic r (t, []) = [])"
proof (induction s)
  case Nil
  show ?case by (subst search.simps) (auto split: list.splits)
next
  case (Cons c s)
  show ?case by (subst search.simps) (auto simp: Cons suffix_Cons split: list.splits)
qed

lemma search_Some_iff:
  "search ic r s = Some g \<longleftrightarrow>
     (\<exists>t s' rest. suffix t s \<and> branches ic r (t, []) = (s', g) # rest \<and>
        (\<forall>t'. suffix t' s \<and> length t < length t' \<longrightarrow> branches ic r (t', []) = []))"
proof (induction s)
  case Nil
  show ?case by (subst search.simps) (auto split: list.splits)
next
  case (Cons c s)
  show ?case
  proof (cases "branches ic r (c # s, [])")
    case Nil
    have "search ic r (c # s) = search ic r s"
      by (subst search.simps) (simp add: Nil)
    moreover have "(\<exists>t s' rest. suffix t (c # s) \<and> branches ic r (t, []) = (s', g) # rest \<and>
        (\<forall>t'. suffix t' (c # s) \<and> length t < length t' \<longrightarrow> branches ic r (t', []) = [])) \<longleftrightarrow>
      (\<exists>t s' rest. suffix t s \<and> branches ic r (t, []) = (s', g) # rest \<and>
        (\<forall>t'. suffix t' s \<and> length t < length t' \<longrightarrow> branches ic r (t', []) = []))"
      using Nil by (auto simp: suffix_Cons) 
    ultimately show ?thesis using Cons by simp
  next
    case (Cons st rest)
    obtain s' g' where st: "st = (s', g')" by (cases st)
    have "search ic r (c # s) = Some g'"
      by (subst search.simps) (simp add: Cons st)
    moreover have "(\<exists>t s' rest. suffix t (c # s) \<and> branches ic r (t, []) = (s', g) # rest \<and>
        (\<forall>t'. suffix t' (c # s) \<and> length t < length t' \<longrightarrow> branches ic r (t', []) = [])) \<longleftrightarrow> g = g'"
    proof
      assume "\<exists>t s' rest. suffix t (c # s) \<and> branches ic r (t, []) = (s', g) # rest \<and>
        (\<forall>t'. suffix t' (c # s) \<and> length t < length t' \<longrightarrow> branches ic r (t', []) = [])"
      then obtain t s'' rest' where t: "suffix t (c # s)" "branches ic r (t, []) = (s'', g) # rest'"
        "\<forall>t'. suffix t' (c # s) \<and> length t < length t' \<longrightarrow> branches ic r (t', []) = []" by blast
      have "\<not> length t < length (c # s)" using t(3) Cons by auto
      moreover have "length t \<le> length (c # s)" using t(1) by (rule suffix_length_le)
      ultimately have "length t = length (c # s)" by simp
      with t(1) have "t = c # s" by (force simp: suffix_def dest: arg_cong [where f = length])
      with t(2) Cons st show "g = g'" by simp
    next
      assume "g = g'"
      then have "suffix (c # s) (c # s) \<and> branches ic r (c # s, []) = (s', g) # rest \<and>
        (\<forall>t'. suffix t' (c # s) \<and> length (c # s) < length t' \<longrightarrow> branches ic r (t', []) = [])"
        using Cons st by (auto dest: suffix_length_le)
      then show "\<exists>t s' rest. suffix t (c # s) \<and> branches ic r (t, []) = (s', g) # rest \<and>
        (\<forall>t'. suffix t' (c # s) \<and> length t < length t' \<longrightarrow> branches ic r (t', []) = [])" by blast
    qed
    ultimately show ?thesis by auto
  qed
qed

lemma search_SomeD:
  "search ic r s = Some g \<Longrightarrow> \<exists>t s'. suffix t s \<and> (s', g) \<in> set (branches ic r (t, []))"
  unfolding search_Some_iff by (metis list.set_intros(1))

lemma in_branches_Lit:
  "(s', g') \<in> set (branches ic (Lit l) (s, g)) \<longleftrightarrow> (\<exists>u. s = u @ s' \<and> list_all2 (char_eq ic) l u) \<and> g' = g"
proof -
  have "(s', g') \<in> set (branches ic (Lit l) (s, g)) \<longleftrightarrow> lit ic l s = Some s' \<and> g' = g"
    by (cases "lit ic l s") auto
  then show ?thesis unfolding lit_Some_iff by simp
qed

lemma in_branches_Seq:
  "(s', g') \<in> set (branches ic (Seq a b) st) \<longleftrightarrow>
     (\<exists>s1 g1. (s1, g1) \<in> set (branches ic a st) \<and> (s', g') \<in> set (branches ic b (s1, g1)))"
  by auto

lemma in_branches_iff:
  "(s', g') \<in> set (branches ic r (s, g)) \<longleftrightarrow> (\<exists>u caps. s = u @ s' \<and> g' = caps @ g \<and> matches ic r u caps)"
proof (induction r arbitrary: s g s' g')
  case (Lit l)
  show ?case unfolding in_branches_Lit by auto
next
  case (Cls P)
  show ?case unfolding in_branches_Cls by auto
next
  case (Star P)
  show ?case unfolding in_branches_Star by auto
next
  case (Plus P)
  show ?case unfolding in_branches_Plus by auto
next
  case (Opt r)
  show ?case unfolding in_branches_Opt Opt by auto
next
  case (Seq a b)
  show ?case unfolding in_branches_Seq Seq
  proof (intro iffI; elim exE conjE)
    fix s1 g1 u1 c1 u2 c2
    assume "s = u1 @ s1" "g1 = c1 @ g" "matches ic a u1 c1" "s1 = u2 @ s'" "g' = c2 @ g1" "matches ic b u2 c2"
    then have "s = (u1 @ u2) @ s' \<and> g' = (c2 @ c1) @ g \<and> matches ic (Seq a b) (u1 @ u2) (c2 @ c1)"
      by auto
    then show "\<exists>u caps. s = u @ s' \<and> g' = caps @ g \<and> matches ic (Seq a b) u caps" by blast
  next
    fix u caps
    assume a: "s = u @ s'" "g' = caps @ g" "matches ic (Seq a b) u caps"
    then obtain u1 u2 c1 c2 where b: "u = u1 @ u2" "caps = c2 @ c1" "matches ic a u1 c1" "matches ic b u2 c2"
      by auto
    have "(\<exists>u caps. s = u @ (u2 @ s') \<and> c1 @ g = caps @ g \<and> matches ic a u caps) \<and>
          (\<exists>u caps. u2 @ s' = u @ s' \<and> g' = caps @ (c1 @ g) \<and> matches ic b u caps)"
      using a b by auto
    then show "\<exists>s1 g1. (\<exists>u caps. s = u @ s1 \<and> g1 = caps @ g \<and> matches ic a u caps) \<and>
          (\<exists>u caps. s1 = u @ s' \<and> g' = caps @ g1 \<and> matches ic b u caps)" by blast
  qed
next
  case (Alt a b)
  show ?case unfolding in_branches_Alt Alt by auto
next
  case (Grp n r)
  show ?case unfolding in_branches_Grp Grp by auto
qed

lemma branches_Nil_iff:
  "branches ic r (t, []) = [] \<longleftrightarrow> (\<forall>u post caps. t = u @ post \<longrightarrow> \<not> matches ic r u caps)"
proof -
  have "branches ic r (t, []) = [] \<longleftrightarrow> (\<forall>s' g'. (s', g') \<notin> set (branches ic r (t, [])))"
    by (cases "branches ic r (t, [])") auto
  then show ?thesis unfolding in_branches_iff by auto
qed

lemma search_None_matches:
  "search ic r s = None \<longleftrightarrow> (\<forall>pre u post caps. s = pre @ u @ post \<longrightarrow> \<not> matches ic r u caps)"
  unfolding search_None_iff branches_Nil_iff suffix_def by blast

lemma search_Some_matches:
  assumes "search ic r s = Some g"
  shows "\<exists>pre u post. s = pre @ u @ post \<and> matches ic r u g"
proof -
  from search_SomeD [OF assms] obtain t s' where t: "suffix t s" "(s', g) \<in> set (branches ic r (t, []))"
    by blast
  from t(2) obtain u where "t = u @ s'" "matches ic r u g"
    unfolding in_branches_iff by auto
  with t(1) show ?thesis unfolding suffix_def by blast
qed

lemma lower_unit_lits:
  "lower ''w'' = ''w''" "lower ''kw'' = ''kw''" "lower ''btu'' = ''btu''"
  by code_simp+

lemma matches_unit_rx: "matches True unit_rx u caps \<longleftrightarrow> unit_token u \<and> caps = []"
  by (auto simp: unit_rx_def list_all2_char_eq_True lower_unit_lits unit_token_def)

lemma number_token_split:
  "number_token tok \<longleftrightarrow> (\<exists>ds ns. tok = ds @ ns \<and> ds \<noteq> [] \<and> (\<forall>c\<in>set ds. is_digit c) \<and> (\<forall>c\<in>set ns. num_char c))"
proof
  assume t: "number_token tok"
  then have "tok = [hd tok] @ tl tok" "[hd tok] \<noteq> []" "\<forall>c\<in>set [hd tok]. is_digit c" "\<forall>c\<in>set (tl tok). num_char c"
    by (auto simp: number_token_def dest: list.set_sel(2))
  then show "\<exists>ds ns. tok = ds @ ns \<and> ds \<noteq> [] \<and> (\<forall>c\<in>set ds. is_digit c) \<and> (\<forall>c\<in>set ns. num_char c)"
    by blast
next
  assume "\<exists>ds ns. tok = ds @ ns \<and> ds \<noteq> [] \<and> (\<forall>c\<in>set ds. is_digit c) \<and> (\<forall>c\<in>set ns. num_char c)"
  then show "number_token tok"
    by (auto simp: number_token_def num_char_def hd_append)
qed

lemma matches_number:
  "matches True (Seq (Plus is_digit) (Star num_char)) u caps \<longleftrightarrow> number_token u \<and> caps = []"
  unfolding number_token_split by auto

lemma matches_tail:
  "matches True (Seq (Opt (Lit ''/'')) (Opt (Lit ''h''))) [] []"
  by simp

lemma matches_tail_caps:
  "matches True (Seq (Opt (Lit ''/'')) (Opt (Lit ''h''))) x caps \<Longrightarrow> caps = []"
  by auto

lemma matches_power_rx_D:
  assumes "matches True power_rx u caps"
  shows "\<exists>tok ws un x. u = tok @ ws @ un @ x \<and> number_token tok \<and> (\<forall>c\<in>set ws. is_space c) \<and>
           unit_token un \<and> caps = [(2, un), (1, tok)]"
proof -
  from assms obtain tok r1 c1 c2 where 1: "u = tok @ r1" "caps = c2 @ c1" 
      "matches True (Grp 1 (Seq (Plus is_digit) (Star num_char))) tok c1"
      "matches True (Seq (Star is_space) (Seq (Grp 2 unit_rx) (Seq (Opt (Lit ''/'')) (Opt (Lit ''h''))))) r1 c2"
    unfolding power_rx_def matches.simps(6) [of True "Grp 1 _"] by blast
  from 1(3) have tok: "number_token tok" "c1 = [(1, tok)]"
    unfolding matches.simps(8) matches_number by auto
  from 1(4) obtain ws r2 c3 c4 where 2: "r1 = ws @ r2" "c2 = c4 @ c3" "matches True (Star is_space) ws c3"
      "matches True (Seq (Grp 2 unit_rx) (Seq (Opt (Lit ''/'')) (Opt (Lit ''h'')))) r2 c4"
    unfolding matches.simps(6) [of True "Star _"] by blast
  from 2(3) have ws: "\<forall>c\<in>set ws. is_space c" "c3 = []" by auto
  from 2(4) obtain un x c5 c6 where 3: "r2 = un @ x" "c4 = c6 @ c5" "matches True (Grp 2 unit_rx) un c5"
      "matches True (Seq (Opt (Lit ''/'')) (Opt (Lit ''h''))) x c6"
    unfolding matches.simps(6) [of True "Grp 2 _"] by blast
  from 3(3) have un: "unit_token un" "c5 = [(2, un)]"
    unfolding matches.simps(8) matches_unit_rx by auto
  from 3(4) have "c6 = []" by (rule matches_tail_caps)
  with 1 2 3 tok ws un show ?thesis by auto
qed

lemma matches_power_rx_I:
  assumes "number_token tok" "\<forall>c\<in>set ws. is_space c" "unit_token un"
  shows "matches True power_rx (tok @ ws @ un) [(2, un), (1, tok)]"
proof -
  have a: "matches True (Grp 1 (Seq (Plus is_digit) (Star num_char))) tok [(1, tok)]"
    unfolding matches.simps(8) matches_number using assms(1) by simp
  have b: "matches True (Star is_space) ws []" using assms(2) by simp
  have c: "matches True (Grp 2 unit_rx) un [(2, un)]"
    unfolding matches.simps(8) matches_unit_rx using assms(3) by simp
  have d: "matches True (Seq (Grp 2 unit_rx) (Seq (Opt (Lit ''/'')) (Opt (Lit ''h'')))) (un @ []) ([] @ [(2, un)])"
    unfolding matches.simps(6) [of True "Grp 2 _"] using c matches_tail by blast
  have e: "matches True (Seq (Star is_space) (Seq (Grp 2 unit_rx) (Seq (Opt (Lit ''/'')) (Opt (Lit ''h''))))) (ws @ un) ([(2, un)] @ [])"
    unfolding matches.simps(6) [of True "Star _"] using b d by (metis append_Nil append_Nil2)
  show ?thesis
    unfolding power_rx_def matches.simps(6) [of True "Grp 1 _"] using a e
    by (metis append_Cons append_Nil)
qed

section \<open>Float conversion and the power pattern\<close>

lemma is_digit_not_sign: "is_digit c \<Longrightarrow> c \<noteq> CHR ''-'' \<and> c \<noteq> CHR ''+'' \<and> c \<noteq> CHR ''.'' \<and> c \<noteq> CHR '',''"
  by (auto simp: is_digit_def)

lemma py_float_unsigned:
  assumes "s \<noteq> []" "is_digit (hd s)"
  shows "py_float s =
     (case dropWhile is_digit s of
        [] \<Rightarrow> Inr (digits_value (takeWhile is_digit s))
      | c # fp \<Rightarrow>
          if c = CHR ''.'' \<and> list_all is_digit fp
          then Inr (digits_value (takeWhile is_digit s) + digits_value fp / 10 ^ length fp)
          else Inl ValueError)"
proof -
  obtain c t where s: "s = c # t" using assms(1) by (cases s) auto
  with assms(2) have c: "is_digit c" by simp
  then have "c \<noteq> CHR ''-''" "c \<noteq> CHR ''+''" using is_digit_not_sign by auto
  then have "py_float s =
     (case dropWhile is_digit t of
        [] \<Rightarrow> Inr (digits_value (c # takeWhile is_digit t))
      | d # fp \<Rightarrow>
          if d = CHR ''.'' \<and> list_all is_digit fp
          then Inr (digits_value (c # takeWhile is_digit t) + digits_value fp / 10 ^ length fp)
          else Inl ValueError)"
    using c by (cases "dropWhile is_digit t") (simp_all add: py_float_def s Let_def del: dropWhile_eq_Nil_conv)
  moreover have "takeWhile is_digit (c # t) = c # takeWhile is_digit t"
    "dropWhile is_digit (c # t) = dropWhile is_digit t" using c by simp_all
  ultimately show ?thesis unfolding s by (simp only:)
qed

lemma foldl_digits_nonneg:
  "0 \<le> a \<Longrightarrow> 0 \<le> foldl (\<lambda>a c. 10 * a + of_nat (digit_val c)) (a::rat) ds"
  by (induction ds arbitrary: a) simp_all

lemma digits_value_nonneg: "0 \<le> digits_value ds"
  by (simp add: digits_value_def foldl_digits_nonneg)

lemma py_float_nonneg:
  assumes "s \<noteq> []" "is_digit (hd s)" "py_float s = Inr f"
  shows "0 \<le> f"
  using assms(3) unfolding py_float_unsigned [OF assms(1,2)]
  by (auto split: list.splits if_splits simp: digits_value_nonneg)

lemma py_float_error:
  "py_float s = Inl e \<Longrightarrow> e = ValueError"
  by (auto simp: py_float_def Let_def split: list.splits if_splits prod.splits)

lemma replace_number_token:
  assumes "number_token tok"
  shows "replace CHR '','' CHR ''.'' tok \<noteq> []" "is_digit (hd (replace CHR '','' CHR ''.'' tok))"
    "\<forall>c\<in>set (replace CHR '','' CHR ''.'' tok). is_digit c \<or> c = CHR ''.''"
  using assms by (auto simp: number_token_def replace_def hd_map num_char_def dest: is_digit_not_sign)

lemma dots_replace: 
  "length (filter (\<lambda>c. c = CHR ''.'') (replace CHR '','' CHR ''.'' tok)) = separators tok"
  by (induction tok) (auto simp: replace_def separators_def)

lemma no_dots_iff:
  assumes "\<forall>c\<in>set fp. is_digit c \<or> c = CHR ''.''"
  shows "list_all is_digit fp \<longleftrightarrow> length (filter (\<lambda>c. c = CHR ''.'') fp) = 0"
  using assms by (induction fp) (auto dest: is_digit_not_sign)

lemma py_float_fails_iff:
  assumes "s \<noteq> []" "is_digit (hd s)" "\<forall>c\<in>set s. is_digit c \<or> c = CHR ''.''"
  shows "(\<exists>e. py_float s = Inl e) \<longleftrightarrow> 1 < length (filter (\<lambda>c. c = CHR ''.'') s)"
proof -
  have split: "s = takeWhile is_digit s @ dropWhile is_digit s" by simp
  have ip: "length (filter (\<lambda>c. c = CHR ''.'') (takeWhile is_digit s)) = 0"
    by (auto simp: filter_empty_conv dest: set_takeWhileD is_digit_not_sign)
  have cnt: "length (filter (\<lambda>c. c = CHR ''.'') s) = length (filter (\<lambda>c. c = CHR ''.'') (dropWhile is_digit s))"
    using ip by (subst split, subst filter_append) simp
  show ?thesis
  proof (cases "dropWhile is_digit s")
    case Nil
    show ?thesis unfolding py_float_unsigned [OF assms(1,2)] cnt Nil by simp
  next
    case (Cons c fp)
    have "c \<in> set s" "set fp \<subseteq> set s"
      using set_dropWhileD [of _ is_digit s] Cons by auto
    moreover have "\<not> is_digit c" using hd_dropWhile [of is_digit s] Cons by auto
    ultimately have c: "c = CHR ''.''" and fp: "\<forall>c\<in>set fp. is_digit c \<or> c = CHR ''.''"
      using assms(3) by auto
    show ?thesis unfolding py_float_unsigned [OF assms(1,2)] cnt Cons
      using c no_dots_iff [OF fp] by simp
  qed
qed

lemma lookup_unit_token:
  "unit_token un \<Longrightarrow> \<exists>k. lookup conversions (lower un) = Inr k \<and> 0 < k"
proof -
  assume "unit_token un"
  then consider "lower un = ''w''" | "lower un = ''kw''" | "lower un = ''btu''"
    unfolding unit_token_def by blast
  then show ?thesis
  proof cases
    case 1
    then have "lookup conversions (lower un) = Inr 1 \<and> (0::rat) < 1"
      by (simp add: lookup_def conversions_def)
    then show ?thesis by blast
  next
    case 2
    then have "lookup conversions (lower un) = Inr 1000 \<and> (0::rat) < 1000"
      by (simp add: lookup_def conversions_def)
    then show ?thesis by blast
  next
    case 3
    then have "lookup conversions (lower un) = Inr (29307107 / 100000000) \<and> (0::rat) < 29307107 / 100000000"
      by (simp add: lookup_def conversions_def)
    then show ?thesis by blast
  qed
qed

lemma power_of_tokens:
  assumes "number_token tok" "unit_token un"
  shows "(\<exists>e. power_of (Some tok) (Some un) = Inl e) \<longleftrightarrow> 1 < separators tok"
    and "power_of (Some tok) (Some un) = Inr v \<Longrightarrow> 0 \<le> v"
proof -
  let ?r = "replace CHR '','' CHR ''.'' tok"
  note r = replace_number_token [OF assms(1)]
  obtain k where k: "lookup conversions (lower un) = Inr k" "0 < k"
    using lookup_unit_token [OF assms(2)] by blast
  have "(\<exists>e. power_of (Some tok) (Some un) = Inl e) \<longleftrightarrow> (\<exists>e. py_float ?r = Inl e)"
    by (cases "py_float ?r") (auto simp: power_of_def k)
  then show "(\<exists>e. power_of (Some tok) (Some un) = Inl e) \<longleftrightarrow> 1 < separators tok"
    unfolding py_float_fails_iff [OF r] dots_replace .
  assume "power_of (Some tok) (Some un) = Inr v"
  then obtain f where "py_float ?r = Inr f" "v = f * k"
    by (cases "py_float ?r") (auto simp: power_of_def k)
  then show "0 \<le> v" using py_float_nonneg [OF r(1,2)] k(2) by simp
qed

lemma power_of_error:
  assumes "number_token tok" "unit_token un" "power_of (Some tok) (Some un) = Inl e"
  shows "e = ValueError"
proof -
  obtain k where k: "lookup conversions (lower un) = Inr k"
    using lookup_unit_token [OF assms(2)] by blast
  from assms(3) have "py_float (replace CHR '','' CHR ''.'' tok) = Inl e"
    by (cases "py_float (replace CHR '','' CHR ''.'' tok)") (auto simp: power_of_def k)
  then show ?thesis by (rule py_float_error)
qed

lemma search_power_rx_Some:
  assumes "search True power_rx s = Some m"
  shows "\<exists>tok un. m = [(2, un), (1, tok)] \<and> number_token tok \<and> unit_token un"
proof -
  from search_Some_matches [OF assms] obtain u where "matches True power_rx u m" by blast
  from matches_power_rx_D [OF this] show ?thesis by blast
qed

lemma search_power_rx_None: "search True power_rx s = None \<longleftrightarrow> \<not> power_token s"
proof
  assume n: "search True power_rx s = None"
  show "\<not> power_token s"
  proof
    assume "power_token s"
    then obtain pre tok ws un post where d: "s = pre @ (tok @ ws @ un) @ post" "number_token tok"
        "\<forall>c\<in>set ws. is_space c" "unit_token un"
      unfolding power_token_def by auto
    from matches_power_rx_I [OF d(2,3,4)] d(1) n show False
      unfolding search_None_matches by blast
  qed
next
  assume n: "\<not> power_token s"
  show "search True power_rx s = None"
    unfolding search_None_matches
  proof (intro allI impI notI)
    fix pre u post caps
    assume "s = pre @ u @ post" "matches True power_rx u caps"
    with matches_power_rx_D [of u caps] obtain tok ws un x where
      "s = pre @ tok @ ws @ un @ (x @ post)" "number_token tok" "\<forall>c\<in>set ws. is_space c" "unit_token un"
      by auto
    then have "power_token s" unfolding power_token_def by blast
    with n show False by simp
  qed
qed

section \<open>The energy class pattern and the inverter test\<close>

lemma lower_energy_lits:
  "lower (''classe '' @ [e_acute] @ ''nerg'' @ [e_acute] @ ''tique'') = ''classe '' @ [e_acute] @ ''nerg'' @ [e_acute] @ ''tique''"
  "lower ''energy class'' = ''energy class''"
  by code_simp+

lemma matches_energy_labels:
  "matches True (Alt (Lit (''classe '' @ [e_acute] @ ''nerg'' @ [e_acute] @ ''tique'')) (Lit ''energy class'')) u caps
     \<longleftrightarrow> energy_label u \<and> caps = []"
  unfolding matches.simps list_all2_char_eq_True lower_energy_lits energy_label_def by blast

lemma matches_class_value:
  "matches True (Seq (Cls class_letter) (Star (\<lambda>c. c = CHR ''+''))) u caps \<longleftrightarrow> class_value u \<and> caps = []"
proof -
  have "matches True (Seq (Cls class_letter) (Star (\<lambda>c. c = CHR ''+''))) u caps \<longleftrightarrow>
        (\<exists>c ps. u = [c] @ ps \<and> cls True class_letter c \<and> (\<forall>x\<in>set ps. x = CHR ''+'')) \<and> caps = []"
  proof
    assume "matches True (Seq (Cls class_letter) (Star (\<lambda>c. c = CHR ''+''))) u caps"
    then show "(\<exists>c ps. u = [c] @ ps \<and> cls True class_letter c \<and> (\<forall>x\<in>set ps. x = CHR ''+'')) \<and> caps = []"
      unfolding matches.simps cls_plus by auto
  next
    assume "(\<exists>c ps. u = [c] @ ps \<and> cls True class_letter c \<and> (\<forall>x\<in>set ps. x = CHR ''+'')) \<and> caps = []"
    then obtain c ps where "u = [c] @ ps" "caps = [] @ []" "matches True (Cls class_letter) [c] []"
        "matches True (Star (\<lambda>c. c = CHR ''+'')) ps []"
      unfolding matches.simps cls_plus by auto
    then show "matches True (Seq (Cls class_letter) (Star (\<lambda>c. c = CHR ''+''))) u caps"
      unfolding matches.simps(6) by blast
  qed
  then show ?thesis unfolding cls_class_letter class_value_def by simp
qed

lemma matches_energy_rx_D:
  assumes "matches True energy_rx u caps"
  shows "\<exists>l seps v. u = l @ seps @ v \<and> energy_label l \<and> (\<forall>x\<in>set seps. sep_char x) \<and> class_value v \<and>
           caps = [(2, v), (1, l)]"
proof -
  from assms obtain l r1 c1 c2 where 1: "u = l @ r1" "caps = c2 @ c1"
      "matches True (Grp 1 (Alt (Lit (''classe '' @ [e_acute] @ ''nerg'' @ [e_acute] @ ''tique'')) (Lit ''energy class''))) l c1"
      "matches True (Seq (Star sep_char) (Grp 2 (Seq (Cls class_letter) (Star (\<lambda>c. c = CHR ''+''))))) r1 c2"
    unfolding energy_rx_def matches.simps(6) [of True "Grp 1 _"] by blast
  from 1(3) have l: "energy_label l" "c1 = [(1, l)]"
    unfolding matches.simps(8) matches_energy_labels by auto
  from 1(4) obtain seps v c3 c4 where 2: "r1 = seps @ v" "c2 = c4 @ c3" "matches True (Star sep_char) seps c3"
      "matches True (Grp 2 (Seq (Cls class_letter) (Star (\<lambda>c. c = CHR ''+'')))) v c4"
    unfolding matches.simps(6) [of True "Star _"] by blast
  from 2(3) have seps: "\<forall>x\<in>set seps. sep_char x" "c3 = []" by auto
  from 2(4) have v: "class_value v" "c4 = [(2, v)]"
    unfolding matches.simps(8) matches_class_value by auto
  from 1 2 l seps v show ?thesis by auto
qed

lemma matches_energy_rx_I:
  assumes "energy_label l" "\<forall>x\<in>set seps. sep_char x" "class_value v"
  shows "matches True energy_rx (l @ seps @ v) [(2, v), (1, l)]"
proof -
  have a: "matches True (Grp 1 (Alt (Lit (''classe '' @ [e_acute] @ ''nerg'' @ [e_acute] @ ''tique'')) (Lit ''energy class''))) l [(1, l)]"
    unfolding matches.simps(8) matches_energy_labels using assms(1) by simp
  have b: "matches True (Star sep_char) seps []" using assms(2) by simp
  have c: "matches True (Grp 2 (Seq (Cls class_letter) (Star (\<lambda>c. c = CHR ''+'')))) v [(2, v)]"
    unfolding matches.simps(8) matches_class_value using assms(3) by simp
  have d: "matches True (Seq (Star sep_char) (Grp 2 (Seq (Cls class_letter) (Star (\<lambda>c. c = CHR ''+''))))) (seps @ v) ([(2, v)] @ [])"
    unfolding matches.simps(6) [of True "Star _"] using b c by blast
  show ?thesis
    unfolding energy_rx_def matches.simps(6) [of True "Grp 1 _"] using a d
    by (metis append_Cons append_Nil)
qed

lemma search_energy_rx_None: "search True energy_rx t = None \<longleftrightarrow> \<not> energy_token t"
proof
  assume n: "search True energy_rx t = None"
  show "\<not> energy_token t"
  proof
    assume "energy_token t"
    then obtain pre l seps v post where d: "t = pre @ (l @ seps @ v) @ post" "energy_label l"
        "\<forall>x\<in>set seps. sep_char x" "class_value v"
      unfolding energy_token_def by auto
    from matches_energy_rx_I [OF d(2,3,4)] d(1) n show False
      unfolding search_None_matches by blast
  qed
next
  assume n: "\<not> energy_token t"
  show "search True energy_rx t = None"
    unfolding search_None_matches
  proof (intro allI impI notI)
    fix pre u post caps
    assume "t = pre @ u @ post" "matches True energy_rx u caps"
    with matches_energy_rx_D [of u caps] obtain l seps v where
      "t = pre @ l @ seps @ v @ post" "energy_label l" "\<forall>x\<in>set seps. sep_char x" "class_value v"
      by auto
    then have "energy_token t" unfolding energy_token_def by blast
    with n show False by simp
  qed
qed

lemma find_energy_class_None: "find_energy_class t = None \<longleftrightarrow> \<not> energy_token t"
proof (cases "search True energy_rx t")
  case None
  then show ?thesis using search_energy_rx_None [of t] by (simp add: find_energy_class_def)
next
  case (Some m)
  from search_Some_matches [OF Some] obtain u where "matches True energy_rx u m" by blast
  from matches_energy_rx_D [OF this] obtain l v where "m = [(2, v), (1, l)]" by blast
  then have "find_energy_class t \<noteq> None" by (simp add: find_energy_class_def Some group_def)
  then show ?thesis using search_energy_rx_None [of t] Some by simp
qed

lemma find_energy_class_Some:
  assumes "find_energy_class t = Some v"
  shows "class_value v \<and> (\<exists>pre l seps post. t = pre @ l @ seps @ v @ post \<and> energy_label l \<and> (\<forall>x\<in>set seps. sep_char x))"
proof -
  from assms obtain m where m: "search True energy_rx t = Some m" "group m 2 = Some v"
    by (auto simp: find_energy_class_def split: option.splits)
  from search_Some_matches [OF m(1)] obtain pre u post where u: "t = pre @ u @ post" "matches True energy_rx u m"
    by blast
  from matches_energy_rx_D [OF u(2)] obtain l seps v' where
    d: "u = l @ seps @ v'" "energy_label l" "\<forall>x\<in>set seps. sep_char x" "class_value v'" "m = [(2, v'), (1, l)]"
    by blast
  from m(2) d(5) have "v' = v" by (simp add: group_def)
  with u d show ?thesis by auto
qed

lemma py_in_sublist: "py_in sub s \<longleftrightarrow> sublist sub s"
  by (induction s) (auto simp: sublist_Cons_right)

lemma sublist_lower: "sublist x (lower t) \<longleftrightarrow> (\<exists>u. sublist u t \<and> lower u = x)"
proof
  assume "sublist x (lower t)"
  then obtain ps ss where "map lower_char t = ps @ x @ ss"
    unfolding sublist_def lower_def by blast
  then obtain us r where r: "t = us @ r" "x @ ss = map lower_char r"
    by (auto simp: map_eq_append_conv)
  from r(2) obtain u vs where "r = u @ vs" "x = map lower_char u"
    by (auto simp: append_eq_map_conv)
  with r(1) have "sublist u t \<and> lower u = x"
    unfolding sublist_def lower_def by blast
  then show "\<exists>u. sublist u t \<and> lower u = x" by blast
next
  assume "\<exists>u. sublist u t \<and> lower u = x"
  then obtain u ps ss where "t = ps @ u @ ss" "lower u = x"
    unfolding sublist_def by blast
  then have "lower t = lower ps @ x @ lower ss" by (simp add: lower_def)
  then show "sublist x (lower t)" unfolding sublist_def by blast
qed

lemma inverter_extract:
  "inverter (extract_specs_from_text t) =
     Some (if \<exists>u. sublist u t \<and> lower u = ''inverter'' then ''Inverter'' else ''Non-Inverter'')"
  unfolding extract_specs_from_text_def Let_def py_in_sublist sublist_lower
  by (simp split: option.splits)

section \<open>Concrete runs\<close>

lemma parse_power_value_eval:
  assumes "search True power_rx s = Some [(2, un), (1, tok)]"
    and "py_float (replace CHR '','' CHR ''.'' tok) = Inr f"
    and "lookup conversions (lower un) = Inr k"
  shows "parse_power_value s = Some (f * k)"
  using assms by (simp add: parse_power_value_def power_of_def group_def)

lemma lookup_btu: "lookup conversions (lower ''btu'') = Inr (29307107 / 100000000)"
  by (simp add: lower_unit_lits lookup_def conversions_def)

lemma float_12000: "py_float (replace CHR '','' CHR ''.'' ''12000'') = Inr 12000"
  by code_simp

lemma search_12000btu: "search True power_rx ''12000btu'' = Some [(2, ''btu''), (1, ''12000'')]"
  by code_simp

lemma search_12000_btu: "search True power_rx ''12000 btu'' = Some [(2, ''btu''), (1, ''12000'')]"
  by code_simp

lemma convert_12000btu: "parse_power_value ''12000btu'' = Some (87921321 / 25000)"
  using parse_power_value_eval [OF search_12000btu float_12000 lookup_btu] by simp

lemma convert_12000_btu: "parse_power_value ''12000 btu'' = Some (87921321 / 25000)"
  using parse_power_value_eval [OF search_12000_btu float_12000 lookup_btu] by simp

lemma convert_1_5kw: "parse_power_value ''1,5kw'' = Some 1500"
  by code_simp

lemma convert_1_5_kw: "parse_power_value ''1,5 kw'' = Some 1500"
  by code_simp

lemma convert_500w: "parse_power_value ''500w'' = Some 500"
  by code_simp

lemma convert_500_w: "parse_power_value ''500 w'' = Some 500"
  by code_simp

lemma convert_abcw: "parse_power_value ''abcw'' = None"
  by code_simp

lemma convert_abc_w: "parse_power_value ''abc w'' = None"
  by code_simp

lemma convert_5lbs: "parse_power_value ''5lbs'' = None"
  by code_simp

lemma convert_5_lbs: "parse_power_value ''5 lbs'' = None"
  by code_simp

lemma search_1_5_3kw: "search True power_rx ''1.5.3kw'' = Some [(2, ''kw''), (1, ''1.5.3'')]"
  by code_simp

lemma extract_sample:
  "extract_specs_from_text sample_text =
     \<lparr>consumption_w = Some 900, cooling_w = Some 3500, inverter = Some ''Inverter'',
      energy_class = Some ''a++''\<rparr>"
  by code_simp

lemma upper_sample_class: "upper ''a++'' = ''A++''"
  by code_simp

lemma energy_class_a: "find_energy_class ''energy class a'' = Some ''a''"
  by code_simp

lemma upper_a: "upper ''a'' = ''A''"
  by code_simp

lemma extract_energy_class_a: "energy_class (extract_specs_from_text ''energy class a'') = Some ''a''"
  by code_simp

lemma energy_class_3plus:
  "find_energy_class (''Classe '' @ [e_acute] @ ''nerg'' @ [e_acute] @ ''tique: A+++'') = Some ''A+++''"
  by code_simp

lemma energy_class_4plus: "find_energy_class ''energy class A++++'' = Some ''A++++''"
  by code_simp

lemma lower_Inverter:
  "lower ''Inverter'' = ''inverter''"
  by code_simp

lemma stub_pdf: "pdf_search (stub_web ''Consommation: 850 W'') ''Daikin'' =
    ([PdfSearch (google @ ''Daikin technical specifications filetype:pdf'')], NoPdfLink)"
  by (simp add: pdf_search_def stub_web_def)

lemma stub_html: "html_search (stub_web ''Consommation: 850 W'') i ''Daikin'' =
    ([HtmlSearch (google @ ''Daikin'')], Some (extract_specs_from_text ''Consommation: 850 W''))"
  by (simp add: html_search_def stub_web_def)

lemma extract_850:
  "extract_specs_from_text ''Consommation: 850 W'' =
     \<lparr>consumption_w = Some 850, cooling_w = None, inverter = Some ''Non-Inverter'', energy_class = None\<rparr>"
  by code_simp

lemma extract_zero:
  "extract_specs_from_text ''Consommation: 0 W, capacity: 3500 W, energy class A'' =
     \<lparr>consumption_w = Some 0, cooling_w = Some 3500, inverter = Some ''Non-Inverter'',
      energy_class = Some ''a''\<rparr>"
  by code_simp

section \<open>The unit converter\<close>

text \<open>
  C5. The conversions of the specification, the number and the unit token given to
  \<open>parse_power_value\<close> as one string, written together or with a space between them, the
  two ways in which the extraction patterns hand them over: \<open>1,5\<close> kW is 1500 W, 12000
  BTU is 3516.85284 W, which is within 0.01 of 3516.85, 500 W is 500 W, and \<open>abc\<close> W and 5
  lbs give no value.
\<close>

theorem unit_conversions:
  "parse_power_value ''1,5kw'' = Some 1500 \<and>
   parse_power_value ''12000btu'' = Some (87921321 / 25000) \<and>
   \<bar>87921321 / 25000 - 351685 / 100\<bar> < (1 / 100 :: rat) \<and>
   parse_power_value ''500w'' = Some 500 \<and>
   parse_power_value ''abcw'' = None \<and>
   parse_power_value ''5lbs'' = None \<and>
   parse_power_value ''1,5 kw'' = Some 1500 \<and>
   parse_power_value ''12000 btu'' = Some (87921321 / 25000) \<and>
   parse_power_value ''500 w'' = Some 500 \<and>
   parse_power_value ''abc w'' = None \<and>
   parse_power_value ''5 lbs'' = None"
  unfolding convert_1_5kw convert_12000btu convert_500w convert_abcw convert_5lbs
    convert_1_5_kw convert_12000_btu convert_500_w convert_abc_w convert_5_lbs
  by simp

text \<open>
  C9. Whenever \<open>parse_power_value\<close> returns a value, the value is not negative: the number
  token starts with a digit, so the float conversion reads no sign, and the three
  conversion factors are positive.
\<close>

theorem parse_power_value_nonneg:
  assumes "parse_power_value s = Some v"
  shows "0 \<le> v"
proof -
  from assms obtain m where m: "search True power_rx s = Some m"
    by (auto simp: parse_power_value_def split: option.splits)
  from search_power_rx_Some [OF m] obtain tok un where
    t: "m = [(2, un), (1, tok)]" "number_token tok" "unit_token un" by blast
  have g: "group m 1 = Some tok" "group m 2 = Some un" by (simp_all add: t(1) group_def)
  have "parse_power_value s = (case power_of (Some tok) (Some un) of Inl e \<Rightarrow> None | Inr w \<Rightarrow> Some w)"
    by (simp add: parse_power_value_def m t(1) group_def)
  with assms have "power_of (Some tok) (Some un) = Inr v"
    by (cases "power_of (Some tok) (Some un)") auto
  with power_of_tokens(2) [OF t(2,3)] show ?thesis .
qed

theorem parse_power_value_nonneg_witness:
  "parse_power_value ''1,5kw'' = Some 1500 \<and> (0::rat) \<le> 1500"
  using parse_power_value_nonneg [OF convert_1_5kw] convert_1_5kw by simp

text \<open>
  C6. \<open>parse_power_value\<close> is a total function into \<open>rat option\<close>: every exception of
  the \<open>try\<close> body becomes \<open>None\<close>, the same value as when the pattern is not found. It
  returns \<open>None\<close> exactly when the string has no number token followed by a known unit
  token (the pattern does not match), or the number token of the match is not a decimal
  number, that is, has more than one point or comma. When the pattern has matched, the
  \<open>try\<close> body can only fail with the \<open>ValueError\<close> of the float conversion: the unit of
  a match is always a key of \<open>conversions\<close>.
\<close>

theorem parse_power_value_None_iff:
  "parse_power_value s = None \<longleftrightarrow>
     \<not> power_token s \<or>
     (\<exists>m tok. search True power_rx s = Some m \<and> group m 1 = Some tok \<and> 1 < separators tok \<and>
        power_of (group m 1) (group m 2) = Inl ValueError)"
proof (cases "search True power_rx s")
  case None
  then show ?thesis using search_power_rx_None [of s] by (simp add: parse_power_value_def)
next
  case (Some m)
  from search_power_rx_Some [OF Some] obtain tok un where
    t: "m = [(2, un), (1, tok)]" "number_token tok" "unit_token un" by blast
  have g: "group m 1 = Some tok" "group m 2 = Some un" by (simp_all add: t(1) group_def)
  have "parse_power_value s = (case power_of (Some tok) (Some un) of Inl e \<Rightarrow> None | Inr w \<Rightarrow> Some w)"
    by (simp add: parse_power_value_def Some t(1) group_def)
  then have "parse_power_value s = None \<longleftrightarrow> (\<exists>e. power_of (Some tok) (Some un) = Inl e)"
    by (cases "power_of (Some tok) (Some un)") auto
  also have "\<dots> \<longleftrightarrow> 1 < separators tok" by (rule power_of_tokens(1) [OF t(2,3)])
  finally have none: "parse_power_value s = None \<longleftrightarrow> 1 < separators tok" .
  have err: "1 < separators tok \<Longrightarrow> power_of (group m 1) (group m 2) = Inl ValueError"
    using power_of_tokens(1) [OF t(2,3)] power_of_error [OF t(2,3)] g by auto
  have tok: "power_token s" using search_power_rx_None [of s] Some by auto
  show ?thesis
  proof
    assume "parse_power_value s = None"
    with none err g Some show "\<not> power_token s \<or>
      (\<exists>m tok. search True power_rx s = Some m \<and> group m 1 = Some tok \<and> 1 < separators tok \<and>
        power_of (group m 1) (group m 2) = Inl ValueError)" by blast
  next
    assume "\<not> power_token s \<or>
      (\<exists>m tok. search True power_rx s = Some m \<and> group m 1 = Some tok \<and> 1 < separators tok \<and>
        power_of (group m 1) (group m 2) = Inl ValueError)"
    with tok Some g have "1 < separators tok" by auto
    with none show "parse_power_value s = None" by simp
  qed
qed

theorem parse_power_value_None_iff_witness:
  "parse_power_value ''1.5.3kw'' = None \<and>
   search True power_rx ''1.5.3kw'' = Some [(2, ''kw''), (1, ''1.5.3'')] \<and>
   group [(2, ''kw''), (1, ''1.5.3'')] 1 = Some ''1.5.3'' \<and> 1 < separators ''1.5.3'' \<and>
   parse_power_value ''5lbs'' = None \<and> \<not> power_token ''5lbs''"
proof -
  have g: "group [(2, ''kw''), (1, ''1.5.3'')] 1 = Some ''1.5.3''" by (simp add: group_def)
  have n: "1 < separators ''1.5.3''" by (simp add: separators_def)
  have "power_of (group [(2, ''kw''), (1, ''1.5.3'')] 1) (group [(2, ''kw''), (1, ''1.5.3'')] 2) = Inl ValueError"
    by code_simp
  with g n search_1_5_3kw have a: "parse_power_value ''1.5.3kw'' = None"
    using parse_power_value_None_iff [of "''1.5.3kw''"] by blast
  have "search True power_rx ''5lbs'' = None" by code_simp
  with convert_5lbs have b: "\<not> power_token ''5lbs''"
    using parse_power_value_None_iff [of "''5lbs''"] by auto
  from a b g n search_1_5_3kw convert_5lbs show ?thesis by simp
qed

section \<open>The extraction engine\<close>

text \<open>
  C1 (as stated). On the sample text the claim expects consumption 900, cooling 3500,
  the inverter value \<open>Non-Inverter\<close> and the energy class \<open>A++\<close>. The extraction does
  not return this record: the lower-cased text contains \<open>inverter\<close> (inside
  \<open>non-inverter\<close>), and the class is read from the lower-cased text.
\<close>

theorem sample_extraction_counterexample:
  "extract_specs_from_text sample_text \<noteq>
     \<lparr>consumption_w = Some 900, cooling_w = Some 3500, inverter = Some ''Non-Inverter'',
      energy_class = Some ''A++''\<rparr>"
  unfolding extract_sample by simp

text \<open>
  C1 (amended). On the sample text the extraction yields consumption 900 W, cooling
  3500 W, the inverter value \<open>Inverter\<close>, and an energy class that is \<open>A++\<close> up to letter
  case.
\<close>

theorem sample_extraction:
  "consumption_w (extract_specs_from_text sample_text) = Some 900 \<and>
   cooling_w (extract_specs_from_text sample_text) = Some 3500 \<and>
   inverter (extract_specs_from_text sample_text) = Some ''Inverter'' \<and>
   map_option upper (energy_class (extract_specs_from_text sample_text)) = Some ''A++''"
  unfolding extract_sample by (simp add: upper_sample_class)

text \<open>
  C2 (as stated). The claim expects the text \<open>energy class a\<close> to yield \<open>A\<close> and at most
  three plus signs in a value. \<open>find_energy_class\<close> returns the value as it is written
  in the text it searches, here \<open>a\<close>, and takes every plus sign that follows the letter,
  here four.
\<close>

theorem energy_class_counterexample:
  "find_energy_class ''energy class a'' \<noteq> Some ''A'' \<and>
   energy_class (extract_specs_from_text ''energy class a'') \<noteq> Some ''A'' \<and>
   find_energy_class ''energy class A++++'' = Some ''A++++''"
  unfolding energy_class_a extract_energy_class_a energy_class_4plus by simp

text \<open>
  C2 (amended). \<open>find_energy_class\<close> matches the label and the class letter in any letter
  case. A value it returns is a letter from A to G, in either letter case, followed by
  plus signs only, and stands in the text after a label and optional colons and white
  space; it returns nothing exactly when the text has no label followed in this way by
  such a value. The text \<open>energy class a\<close> yields the class A up to letter case, the text
  \<open>Classe \xe9nerg\xe9tique: A+++\<close> yields \<open>A+++\<close>, and the number of plus signs is not
  bounded: \<open>energy class A++++\<close> yields \<open>A++++\<close>.
\<close>

theorem find_energy_class_value:
  "(find_energy_class t = None \<longleftrightarrow> \<not> energy_token t) \<and>
   (\<forall>v. find_energy_class t = Some v \<longrightarrow>
      class_value v \<and>
      (\<exists>pre l seps post. t = pre @ l @ seps @ v @ post \<and> energy_label l \<and> (\<forall>x\<in>set seps. sep_char x))) \<and>
   map_option upper (find_energy_class ''energy class a'') = Some ''A'' \<and>
   find_energy_class (''Classe '' @ [e_acute] @ ''nerg'' @ [e_acute] @ ''tique: A+++'') = Some ''A+++'' \<and>
   find_energy_class ''energy class A++++'' = Some ''A++++''"
proof -
  have "map_option upper (find_energy_class ''energy class a'') = Some ''A''"
    by (simp add: energy_class_a upper_a)
  then show ?thesis
    using find_energy_class_None [of t] find_energy_class_Some [of t]
      energy_class_3plus energy_class_4plus by blast
qed

theorem find_energy_class_value_witness:
  "map_option upper (find_energy_class ''energy class a'') = Some ''A'' \<and>
   energy_token ''energy class a'' \<and>
   (\<exists>v. find_energy_class ''energy class a'' = Some v \<and> class_value v)"
proof -
  note t = find_energy_class_value [of "''energy class a''"]
  from t have a: "map_option upper (find_energy_class ''energy class a'') = Some ''A''" by blast
  then obtain v where v: "find_energy_class ''energy class a'' = Some v" by auto
  with t have b: "energy_token ''energy class a''" by auto
  from t v have "class_value v" by blast
  with a b v show ?thesis by blast
qed

text \<open>
  C7. For every text the extraction returns a record of the four fields, and its
  inverter field is never absent: it is \<open>Inverter\<close> when some substring of the text is
  \<open>inverter\<close> up to letter case, and \<open>Non-Inverter\<close> otherwise.
\<close>

theorem extract_inverter_definite:
  "\<exists>c k e. extract_specs_from_text t =
     \<lparr>consumption_w = c, cooling_w = k,
      inverter = Some (if \<exists>u. sublist u t \<and> lower u = ''inverter'' then ''Inverter'' else ''Non-Inverter''),
      energy_class = e\<rparr>"
proof -
  have "extract_specs_from_text t =
     \<lparr>consumption_w = consumption_w (extract_specs_from_text t), cooling_w = cooling_w (extract_specs_from_text t),
      inverter = inverter (extract_specs_from_text t), energy_class = energy_class (extract_specs_from_text t)\<rparr>"
    by simp
  then show ?thesis unfolding inverter_extract by blast
qed

theorem extract_inverter_definite_witness:
  "inverter (extract_specs_from_text ''Inverter Technology'') = Some ''Inverter'' \<and>
   inverter (extract_specs_from_text ''Split 12000 BTU'') = Some ''Non-Inverter''"
proof -
  have "sublist ''Inverter'' ''Inverter Technology'' \<and> lower ''Inverter'' = ''inverter''"
    by (simp add: lower_Inverter)
  then have a: "\<exists>u. sublist u ''Inverter Technology'' \<and> lower u = ''inverter''" by blast
  have "\<not> sublist ''inverter'' (lower ''Split 12000 BTU'')" by code_simp
  then have b: "\<not> (\<exists>u. sublist u ''Split 12000 BTU'' \<and> lower u = ''inverter'')"
    unfolding sublist_lower .
  from extract_inverter_definite [of "''Inverter Technology''"] a
  have "inverter (extract_specs_from_text ''Inverter Technology'') = Some ''Inverter''" by auto
  moreover from extract_inverter_definite [of "''Split 12000 BTU''"] b
  have "inverter (extract_specs_from_text ''Split 12000 BTU'') = Some ''Non-Inverter''" by auto
  ultimately show ?thesis by simp
qed

section \<open>The fallback chain\<close>

lemma pdf_search_sent:
  assumes "pdf_search w model = (sent, out)"
  shows "\<exists>u. sent = [PdfSearch u] \<or> (\<exists>p. sent = [PdfSearch u, PdfDownload p])"
  using assms
  by (auto simp: pdf_search_def Let_def split: option.splits list.splits)

lemma html_search_sent: "\<exists>u. fst (html_search w i model) = [HtmlSearch u]"
  by (auto simp: html_search_def Let_def split: option.splits)

lemma html_search_None:
  "snd (html_search w i model) = None \<longleftrightarrow>
     (case http_get w i (google @ url_quote w model) of
        None \<Rightarrow> True | Some page \<Rightarrow> search_div_text w page = None)"
  by (auto simp: html_search_def Let_def split: option.splits)

lemma fetch_Returned:
  "pdf_search w model = (sent, Returned s) \<Longrightarrow> fetch_product_specs w model = (sent, Some s)"
  by (simp add: fetch_product_specs_def)

lemma fetch_fallback:
  assumes "pdf_search w model = (sent, out)" "\<forall>s. out \<noteq> Returned s"
  shows "fetch_product_specs w model =
           (sent @ fst (html_search w (length sent) model), snd (html_search w (length sent) model))"
  using assms by (cases out) (auto simp: fetch_product_specs_def split: prod.splits)

text \<open>
  C4. Let the PDF stage end with the requests \<open>sent\<close> and the outcome \<open>out\<close>. The stage
  sends exactly one PDF search and no HTML search. When it does not return a result,
  whether no PDF link was found or any step raised, the function goes on with exactly one
  HTML search as its last request, and its result is the result of the HTML stage
  whatever the failure was. When the PDF stage returns, no HTML search is sent. The
  function returns nothing exactly when the PDF stage has not returned and the HTML stage
  fails.
\<close>

theorem fallback_chain:
  assumes "pdf_search w model = (sent, out)"
  shows "((\<forall>s. out \<noteq> Returned s) \<longrightarrow>
            (\<exists>url. fetch_product_specs w model =
                     (sent @ [HtmlSearch url], snd (html_search w (length sent) model)))) \<and>
         ((\<exists>s. out = Returned s) \<longrightarrow> fst (fetch_product_specs w model) = sent) \<and>
         length (filter is_pdf_search sent) = 1 \<and>
         filter is_html_search sent = [] \<and>
         length (filter is_pdf_search (fst (fetch_product_specs w model))) = 1 \<and>
         length (filter is_html_search (fst (fetch_product_specs w model))) =
           (if \<exists>s. out = Returned s then 0 else 1) \<and>
         (snd (fetch_product_specs w model) = None \<longleftrightarrow>
            (\<forall>s. out \<noteq> Returned s) \<and> snd (html_search w (length sent) model) = None)"
proof -
  obtain url where url: "fst (html_search w (length sent) model) = [HtmlSearch url]"
    using html_search_sent by blast
  have c: "length (filter is_pdf_search sent) = 1" "filter is_html_search sent = []"
    using pdf_search_sent [OF assms] by auto
  show ?thesis
  proof (cases "\<exists>s. out = Returned s")
    case True
    then obtain s where "out = Returned s" by blast
    with assms have "fetch_product_specs w model = (sent, Some s)"
      by (simp add: fetch_Returned)
    with True c show ?thesis by simp
  next
    case False
    then have "fetch_product_specs w model =
        (sent @ [HtmlSearch url], snd (html_search w (length sent) model))"
      using fetch_fallback [OF assms] url by simp
    with False c show ?thesis by simp
  qed
qed

theorem fallback_chain_witness:
  "pdf_search (stub_web ''Consommation: 850 W'') ''Daikin'' =
     ([PdfSearch (google @ ''Daikin technical specifications filetype:pdf'')], NoPdfLink) \<and>
   fetch_product_specs (stub_web ''Consommation: 850 W'') ''Daikin'' =
     ([PdfSearch (google @ ''Daikin technical specifications filetype:pdf''), HtmlSearch (google @ ''Daikin'')],
      Some (extract_specs_from_text ''Consommation: 850 W''))"
proof -
  from fallback_chain [OF stub_pdf]
  obtain url where "fetch_product_specs (stub_web ''Consommation: 850 W'') ''Daikin'' =
      ([PdfSearch (google @ ''Daikin technical specifications filetype:pdf'')] @ [HtmlSearch url],
       snd (html_search (stub_web ''Consommation: 850 W'') (length [PdfSearch (google @ ''Daikin technical specifications filetype:pdf'')]) ''Daikin''))"
    by blast
  moreover have "fetch_product_specs (stub_web ''Consommation: 850 W'') ''Daikin'' =
      ([PdfSearch (google @ ''Daikin technical specifications filetype:pdf'')] @ [HtmlSearch (google @ ''Daikin'')],
       Some (extract_specs_from_text ''Consommation: 850 W''))"
    by (simp add: fetch_product_specs_def stub_pdf stub_html)
  ultimately show ?thesis using stub_pdf by simp
qed

section \<open>Acceptance and merge\<close>

lemma accept_Some_iff:
  "accept auto = Some s \<longleftrightarrow>
     auto = Some s \<and> (\<exists>c k. consumption_w s = Some c \<and> c \<noteq> 0 \<and> cooling_w s = Some k \<and> k \<noteq> 0)"
  by (auto simp: accept_def truthy_def split: option.splits)

lemma accept_None_iff:
  "accept auto = None \<longleftrightarrow>
     (\<forall>s. auto = Some s \<longrightarrow>
        consumption_w s = None \<or> consumption_w s = Some 0 \<or> cooling_w s = None \<or> cooling_w s = Some 0)"
  by (auto simp: accept_def truthy_def split: option.splits)

lemma merge_None:
  "merge None m =
     (if consumption m \<noteq> 0 \<or> cooling_power m \<noteq> 0
      then Some \<lparr>final_consumption = Some (consumption m), final_cooling = Some (cooling_power m),
                 efficiency = Some (manual_energy_class m)\<rparr>
      else None)"
  by (simp add: merge_def)

lemma merge_Some:
  "merge (Some s) m =
     Some \<lparr>final_consumption = consumption_w s, final_cooling = cooling_w s, efficiency = energy_class s\<rparr>"
  by (simp add: merge_def)

lemma script_pressed:
  "model_name \<noteq> [] \<Longrightarrow>
     script w True model_name m = merge (accept (snd (fetch_product_specs w model_name))) m"
  by (simp add: script_def searched_specs_def)

text \<open>
  C8. The fetched specs are kept exactly when they are present and both
  \<open>consumption_w\<close> and \<open>cooling_w\<close> are present and not zero, and then they are kept
  unchanged. Otherwise they are discarded as a whole, and every merged field, the energy
  class included, is the manual value (the section is shown when one of the manual powers
  is not zero). With the button pressed and a model name given, the script is this
  acceptance of the fetched specs followed by the merge.
\<close>

theorem acceptance_all_or_nothing:
  "(accept auto \<noteq> None \<longleftrightarrow>
      (\<exists>s c k. auto = Some s \<and> consumption_w s = Some c \<and> c \<noteq> 0 \<and> cooling_w s = Some k \<and> k \<noteq> 0)) \<and>
   (accept auto \<noteq> None \<longrightarrow> accept auto = auto) \<and>
   (accept auto = None \<longrightarrow>
      merge (accept auto) m =
        (if consumption m \<noteq> 0 \<or> cooling_power m \<noteq> 0
         then Some \<lparr>final_consumption = Some (consumption m), final_cooling = Some (cooling_power m),
                    efficiency = Some (manual_energy_class m)\<rparr>
         else None)) \<and>
   (model_name \<noteq> [] \<longrightarrow>
      script w True model_name m = merge (accept (snd (fetch_product_specs w model_name))) m)"
proof -
  have a: "accept auto \<noteq> None \<longleftrightarrow>
      (\<exists>s c k. auto = Some s \<and> consumption_w s = Some c \<and> c \<noteq> 0 \<and> cooling_w s = Some k \<and> k \<noteq> 0)"
    by (auto simp: accept_def truthy_def split: option.splits)
  have b: "accept auto \<noteq> None \<longrightarrow> accept auto = auto"
    by (auto simp: accept_def truthy_def split: option.splits)
  have c: "accept auto = None \<longrightarrow>
      merge (accept auto) m =
        (if consumption m \<noteq> 0 \<or> cooling_power m \<noteq> 0
         then Some \<lparr>final_consumption = Some (consumption m), final_cooling = Some (cooling_power m),
                    efficiency = Some (manual_energy_class m)\<rparr>
         else None)"
    by (simp add: merge_None)
  from a b c script_pressed [of model_name w m] show ?thesis by blast
qed

theorem acceptance_all_or_nothing_witness:
  "accept (Some (extract_specs_from_text ''Consommation: 0 W, capacity: 3500 W, energy class A'')) = None \<and>
   merge (accept (Some (extract_specs_from_text ''Consommation: 0 W, capacity: 3500 W, energy class A'')))
         \<lparr>consumption = 900, cooling_power = 0, manual_inverter = ''Oui'', manual_energy_class = ''B''\<rparr> =
     Some \<lparr>final_consumption = Some 900, final_cooling = Some 0, efficiency = Some ''B''\<rparr>"
proof -
  let ?auto = "Some (extract_specs_from_text ''Consommation: 0 W, capacity: 3500 W, energy class A'')"
  let ?m = "\<lparr>consumption = 900, cooling_power = 0, manual_inverter = ''Oui'', manual_energy_class = ''B''\<rparr>"
  note t = acceptance_all_or_nothing [of ?auto ?m]
  have "\<not> (\<exists>s c k. ?auto = Some s \<and> consumption_w s = Some c \<and> c \<noteq> 0 \<and> cooling_w s = Some k \<and> k \<noteq> 0)"
    by (simp add: extract_zero)
  with t have n: "accept ?auto = None" by blast
  with t have "merge (accept ?auto) ?m =
        (if consumption ?m \<noteq> 0 \<or> cooling_power ?m \<noteq> 0
         then Some \<lparr>final_consumption = Some (consumption ?m), final_cooling = Some (cooling_power ?m),
                    efficiency = Some (manual_energy_class ?m)\<rparr>
         else None)" by blast
  with n show ?thesis by simp
qed

text \<open>
  C3 (as stated). The claim takes each field from the automatic specs when that field is
  present. From the text \<open>Consommation: 850 W\<close> the extraction finds a consumption of 850
  and no cooling power. With these automatic specs and a manual consumption of 900, the
  merged consumption is not 850: the automatic specs are discarded as a whole.
\<close>

theorem merge_field_independent_counterexample:
  "extract_specs_from_text ''Consommation: 850 W'' =
     \<lparr>consumption_w = Some 850, cooling_w = None, inverter = Some ''Non-Inverter'', energy_class = None\<rparr> \<and>
   map_option final_consumption
     (merge (accept (Some \<lparr>consumption_w = Some 850, cooling_w = None, inverter = Some ''Non-Inverter'',
                            energy_class = None\<rparr>))
            \<lparr>consumption = 900, cooling_power = 0, manual_inverter = ''Oui'', manual_energy_class = ''A''\<rparr>)
   \<noteq> Some (Some 850)"
  by (simp add: extract_850 accept_def truthy_def merge_def)

text \<open>
  C3 (amended). The merge is all or nothing. When the automatic specs are present with
  consumption and cooling power both present and not zero, the merged consumption,
  cooling power and energy class are all the automatic values (the energy class may be
  absent); otherwise, when one of the manual powers is not zero, all three are the manual
  values. The inverter value is not merged. With no automatic consumption and a manual
  consumption of 900 the merged consumption is 900; with an automatic consumption of 850,
  an automatic cooling power that is present and not zero, and a manual consumption of
  900, it is 850.
\<close>

theorem merge_all_or_nothing:
  "(auto = Some s \<and> consumption_w s = Some c \<and> c \<noteq> 0 \<and> cooling_w s = Some k \<and> k \<noteq> 0 \<longrightarrow>
      merge (accept auto) m =
        Some \<lparr>final_consumption = Some c, final_cooling = Some k, efficiency = energy_class s\<rparr>) \<and>
   ((\<forall>s. auto = Some s \<longrightarrow>
        consumption_w s = None \<or> consumption_w s = Some 0 \<or> cooling_w s = None \<or> cooling_w s = Some 0) \<and>
    (consumption m \<noteq> 0 \<or> cooling_power m \<noteq> 0) \<longrightarrow>
      merge (accept auto) m =
        Some \<lparr>final_consumption = Some (consumption m), final_cooling = Some (cooling_power m),
              efficiency = Some (manual_energy_class m)\<rparr>) \<and>
   ((\<forall>s. auto = Some s \<longrightarrow> consumption_w s = None) \<and> consumption m = 900 \<longrightarrow>
      map_option final_consumption (merge (accept auto) m) = Some (Some 900)) \<and>
   (auto = Some s \<and> consumption_w s = Some 850 \<and> cooling_w s = Some k \<and> k \<noteq> 0 \<and> consumption m = 900 \<longrightarrow>
      map_option final_consumption (merge (accept auto) m) = Some (Some 850))"
proof -
  have a: "auto = Some s \<and> consumption_w s = Some c \<and> c \<noteq> 0 \<and> cooling_w s = Some k \<and> k \<noteq> 0 \<longrightarrow>
      merge (accept auto) m =
        Some \<lparr>final_consumption = Some c, final_cooling = Some k, efficiency = energy_class s\<rparr>"
    by (auto simp: accept_def truthy_def merge_Some)
  have b: "(\<forall>s. auto = Some s \<longrightarrow>
        consumption_w s = None \<or> consumption_w s = Some 0 \<or> cooling_w s = None \<or> cooling_w s = Some 0) \<and>
    (consumption m \<noteq> 0 \<or> cooling_power m \<noteq> 0) \<longrightarrow>
      merge (accept auto) m =
        Some \<lparr>final_consumption = Some (consumption m), final_cooling = Some (cooling_power m),
              efficiency = Some (manual_energy_class m)\<rparr>"
    using accept_None_iff [of auto] by (auto simp: merge_None)
  have c: "(\<forall>s. auto = Some s \<longrightarrow> consumption_w s = None) \<and> consumption m = 900 \<longrightarrow>
      map_option final_consumption (merge (accept auto) m) = Some (Some 900)"
  proof
    assume h: "(\<forall>s. auto = Some s \<longrightarrow> consumption_w s = None) \<and> consumption m = 900"
    then have "accept auto = None" using accept_None_iff [of auto] by auto
    with h show "map_option final_consumption (merge (accept auto) m) = Some (Some 900)"
      by (simp add: merge_None)
  qed
  have d: "auto = Some s \<and> consumption_w s = Some 850 \<and> cooling_w s = Some k \<and> k \<noteq> 0 \<and> consumption m = 900 \<longrightarrow>
      map_option final_consumption (merge (accept auto) m) = Some (Some 850)"
    by (auto simp: accept_def truthy_def merge_Some)
  from a b c d show ?thesis by blast
qed

theorem merge_all_or_nothing_witness:
  "merge (accept (Some \<lparr>consumption_w = Some 850, cooling_w = Some 2500, inverter = Some ''Inverter'',
                         energy_class = None\<rparr>))
         \<lparr>consumption = 900, cooling_power = 0, manual_inverter = ''Oui'', manual_energy_class = ''A''\<rparr> =
     Some \<lparr>final_consumption = Some 850, final_cooling = Some 2500, efficiency = None\<rparr> \<and>
   merge (accept None)
         \<lparr>consumption = 900, cooling_power = 0, manual_inverter = ''Oui'', manual_energy_class = ''A''\<rparr> =
     Some \<lparr>final_consumption = Some 900, final_cooling = Some 0, efficiency = Some ''A''\<rparr>"
proof -
  let ?s = "\<lparr>consumption_w = Some 850, cooling_w = Some 2500, inverter = Some ''Inverter'', energy_class = None\<rparr>"
  let ?m = "\<lparr>consumption = 900, cooling_power = 0, manual_inverter = ''Oui'', manual_energy_class = ''A''\<rparr>"
  have "merge (accept (Some ?s)) ?m =
      Some \<lparr>final_consumption = Some 850, final_cooling = Some 2500, efficiency = energy_class ?s\<rparr>"
    using merge_all_or_nothing [of "Some ?s" ?s 850 2500 ?m] by simp
  moreover have "merge (accept None) ?m =
      Some \<lparr>final_consumption = Some (consumption ?m), final_cooling = Some (cooling_power ?m),
              efficiency = Some (manual_energy_class ?m)\<rparr>"
    using merge_all_or_nothing [of None ?s 850 2500 ?m] by simp
  ultimately show ?thesis by simp
qed

end
